theory Spec2Isabelle
  imports Main "HOL-Library.List_Lexorder"
begin

section \<open>The polynomial-ring substrate\<close>

text \<open>
  Modelled from the spec: the multivariate polynomial ring that
  \<^verbatim>\<open>PolynomialRing(R, names)\<close> returns is not part of the two source files; the
  spec (section 6) only asks of it variable creation, \<open>zero()\<close>, \<open>one()\<close>,
  \<open>gens()\<close>, ring arithmetic and comparison with zero.  A monomial is the sorted list of
  the indices of its indeterminates (with multiplicity), a polynomial the list of its
  terms with non-zero coefficient, strictly increasing in the monomial.  The \<open>i\<close>-th
  generator of the ring is \<open>pvar i\<close>; names are left out (the spec excludes naming and
  printing).
\<close>

type_synonym mono = "nat list"

type_synonym 'a mpoly = "(mono \<times> 'a) list"

fun mmul :: "mono \<Rightarrow> mono \<Rightarrow> mono" where
  "mmul [] ys = ys"
| "mmul xs [] = xs"
| "mmul (x # xs) (y # ys) =
     (if x \<le> y then x # mmul xs (y # ys) else y # mmul (x # xs) ys)"

definition pzero :: "'a::comm_ring_1 mpoly" where
  "pzero = []"

definition pone :: "'a::comm_ring_1 mpoly" where
  "pone = [([], 1)]"

definition pvar :: "nat \<Rightarrow> 'a::comm_ring_1 mpoly" where
  "pvar i = [([i], 1)]"

fun padd :: "'a::comm_ring_1 mpoly \<Rightarrow> 'a mpoly \<Rightarrow> 'a mpoly" where
  "padd [] q = q"
| "padd p [] = p"
| "padd ((m, c) # p) ((n, d) # q) =
     (if m < n then (m, c) # padd p ((n, d) # q)
      else if n < m then (n, d) # padd ((m, c) # p) q
      else if c + d = 0 then padd p q
      else (m, c + d) # padd p q)"

definition pneg :: "'a::comm_ring_1 mpoly \<Rightarrow> 'a mpoly" where
  "pneg p = map (\<lambda>(m, c). (m, - c)) p"

definition psub :: "'a::comm_ring_1 mpoly \<Rightarrow> 'a mpoly \<Rightarrow> 'a mpoly" where
  "psub p q = padd p (pneg q)"

text \<open>The product of a polynomial with one term \<open>c * m\<close>.\<close>

fun pscale :: "mono \<Rightarrow> 'a::comm_ring_1 \<Rightarrow> 'a mpoly \<Rightarrow> 'a mpoly" where
  "pscale m c [] = []"
| "pscale m c ((n, d) # q) =
     padd (if c * d = 0 then [] else [(mmul m n, c * d)]) (pscale m c q)"

fun pmul :: "'a::comm_ring_1 mpoly \<Rightarrow> 'a mpoly \<Rightarrow> 'a mpoly" where
  "pmul [] q = []"
| "pmul ((m, c) # p) q = padd (pscale m c q) (pmul p q)"

fun ppow :: "'a::comm_ring_1 mpoly \<Rightarrow> nat \<Rightarrow> 'a mpoly" where
  "ppow p 0 = pone"
| "ppow p (Suc k) = pmul p (ppow p k)"

text \<open>Python's \<^verbatim>\<open>sum(...)\<close> and the loops \<^verbatim>\<open>term += g\<close>, \<^verbatim>\<open>term *= g\<close>.\<close>

definition psum :: "'a::comm_ring_1 mpoly list \<Rightarrow> 'a mpoly" where
  "psum ps = foldl padd pzero ps"

definition pprod :: "'a::comm_ring_1 mpoly list \<Rightarrow> 'a mpoly" where
  "pprod ps = foldl pmul pone ps"

text \<open>Evaluation at a point, the ring homomorphism that sends \<open>pvar i\<close> to \<open>\<rho> i\<close>.\<close>

definition meval :: "(nat \<Rightarrow> 'a::comm_ring_1) \<Rightarrow> mono \<Rightarrow> 'a" where
  "meval \<rho> m = prod_list (map \<rho> m)"

definition peval :: "(nat \<Rightarrow> 'a::comm_ring_1) \<Rightarrow> 'a mpoly \<Rightarrow> 'a" where
  "peval \<rho> p = sum_list (map (\<lambda>(m, c). c * meval \<rho> m) p)"

text \<open>
  The ideal a generator sequence spans: all combinations \<open>h\<^sub>1 * g\<^sub>1 + \<dots> + h\<^sub>k * g\<^sub>k\<close>
  with polynomial coefficients.
\<close>

definition ideal_of :: "'a::comm_ring_1 mpoly list \<Rightarrow> 'a mpoly set" where
  "ideal_of gs = {p. \<exists>hs. length hs = length gs \<and> p = psum (map2 pmul hs gs)}"

section \<open>The matroid collaborator\<close>

text \<open>
  The matroid is consumed only through \<^verbatim>\<open>groundset()\<close>, \<^verbatim>\<open>rank(X)\<close> and \<^verbatim>\<open>flats(r)\<close>.
  A flat is a \<^verbatim>\<open>frozenset\<close>, here a set; \<open>groundset\<close> and \<open>flats r\<close> are the sequences
  in which Python iterates over the collections the matroid returns.  The rank of a set
  is a natural number; \<^verbatim>\<open>rank()\<close> without argument is the rank of the groundset.
  The engines raise a sum to a difference of the ranks of two flats of which the first
  contains the second; the rank function of a matroid is monotone, so the difference is
  not negative, and it is written with the subtraction of natural numbers.
\<close>

record 'e matroid =
  groundset :: "'e list"
  rank :: "'e set \<Rightarrow> nat"
  flats :: "nat \<Rightarrow> 'e set list"

definition full_rank :: "'e matroid \<Rightarrow> nat" where
  "full_rank M = rank M (set (groundset M))"

text \<open>\<^verbatim>\<open>[X for i in range(1, self._matroid.rank()) for X in self._matroid.flats(i)]\<close>\<close>

definition proper_flats :: "'e matroid \<Rightarrow> 'e set list" where
  "proper_flats M = [X. i \<leftarrow> [1..<full_rank M], X \<leftarrow> flats M i]"

section \<open>Python dictionaries and errors\<close>

datatype error = KeyError

text \<open>
  A dictionary keeps its keys in the order of their first insertion; storing under a
  key that is present replaces the value in place.
\<close>

type_synonym ('k, 'v) dict = "('k \<times> 'v) list"

fun dict_set :: "('k, 'v) dict \<Rightarrow> 'k \<Rightarrow> 'v \<Rightarrow> ('k, 'v) dict" where
  "dict_set [] k v = [(k, v)]"
| "dict_set ((k', v') # d) k v =
     (if k' = k then (k', v) # d else (k', v') # dict_set d k v)"

definition dict_of :: "('k \<times> 'v) list \<Rightarrow> ('k, 'v) dict" where
  "dict_of kvs = foldl (\<lambda>d (k, v). dict_set d k v) [] kvs"

definition dict_keys :: "('k, 'v) dict \<Rightarrow> 'k list" where
  "dict_keys d = map fst d"

text \<open>
  \<^verbatim>\<open>d[k]\<close>.  Every lookup in a dictionary of generators below is on a key that was stored
  when the dictionary was built (see the section on dictionaries of generators), so the
  \<^verbatim>\<open>KeyError\<close> of a missing key cannot occur there.
\<close>

definition dict_get :: "('k, 'v) dict \<Rightarrow> 'k \<Rightarrow> 'v" where
  "dict_get d k = the (map_of d k)"

text \<open>
  \<^verbatim>\<open>flats_containing = {x: [] for x in E}\<close> followed by
  \<^verbatim>\<open>for i, F in enumerate(flats): for x in F: flats_containing[x].append(i)\<close>.
  The lookup raises \<^verbatim>\<open>KeyError\<close> as soon as a flat has an element outside \<open>E\<close>.  Otherwise
  every key receives, in increasing order, the positions of the flats that contain it
  (the order in which the inner loop visits a flat does not matter: it touches each key
  at most once per flat).
\<close>

definition flats_containing_index :: "'e list \<Rightarrow> 'e set list \<Rightarrow> error + ('e \<Rightarrow> nat list)" where
  "flats_containing_index E fs =
     (if \<exists>F \<in> set fs. \<not> F \<subseteq> set E then Inl KeyError
      else Inr (\<lambda>x. [i. (i, F) \<leftarrow> enumerate 0 fs, x \<in> F]))"

text \<open>The same loop with \<^verbatim>\<open>flats_containing[x].append(F)\<close>.\<close>

definition flats_containing :: "'e list \<Rightarrow> 'e set list \<Rightarrow> error + ('e \<Rightarrow> 'e set list)" where
  "flats_containing E fs =
     (if \<exists>F \<in> set fs. \<not> F \<subseteq> set E then Inl KeyError
      else Inr (\<lambda>x. [F. F \<leftarrow> fs, x \<in> F]))"

section \<open>Chow ring ideals\<close>

text \<open>
  \<^verbatim>\<open>PolynomialRing(R, names)\<close> and, when the names are not proper variable names,
  \<^verbatim>\<open>PolynomialRing(R, 'A', n)\<close> give a ring with as many generators as names; only the
  names differ.  A ring is given by the number of its generators.
\<close>

type_synonym poly_ring = nat

definition ring_gens :: "poly_ring \<Rightarrow> 'a::comm_ring_1 mpoly list" where
  "ring_gens R = map pvar [0..<R]"

text \<open>
  The keys of \<^verbatim>\<open>self._flats_generator\<close>: flats, and in the Feitchner-Yuzvinsky
  presentation also groundset elements.
\<close>

datatype 'e key = Elem 'e | Flat "'e set"

text \<open>
  The state of an ideal object: \<^verbatim>\<open>self._matroid\<close>, \<^verbatim>\<open>self._flats_generator\<close>, and the
  ring and the generators handed to \<^verbatim>\<open>MPolynomialIdeal.__init__\<close>.  The augmented
  presentations also keep \<^verbatim>\<open>self._flats\<close>.
\<close>

record ('e, 'a) chow_ring_ideal =
  matroid_of :: "'e matroid"
  flats_generator :: "('e key, 'a mpoly) dict"
  ring :: poly_ring
  gens :: "'a mpoly list"

record ('e, 'a) augmented_chow_ring_ideal = "('e, 'a) chow_ring_ideal" +
  flats_of :: "'e set list"

text \<open>The flats among the keys of a dictionary of generators, in key order.\<close>

fun flat_keys :: "'e key list \<Rightarrow> 'e set list" where
  "flat_keys [] = []"
| "flat_keys (Flat F # ks) = F # flat_keys ks"
| "flat_keys (Elem x # ks) = flat_keys ks"

subsection \<open>The non-augmented presentation\<close>

text \<open>The quadratic generators \<open>Q\<close> of \<^verbatim>\<open>ChowRingIdeal_nonaug._gens_constructor\<close>.\<close>

definition nonaug_Q :: "'e set list \<Rightarrow> 'a::comm_ring_1 mpoly list \<Rightarrow> 'a mpoly list" where
  "nonaug_Q fs gs =
     [pmul (gs ! i) (gs ! (i + j + 1)).
        (i, F) \<leftarrow> enumerate 0 fs, (j, G) \<leftarrow> enumerate 0 (drop (i + 1) fs),
        \<not> (F \<subset> G \<or> G \<subset> F)]"

text \<open>The linear generators \<open>L\<close>.\<close>

definition nonaug_L :: "'e list \<Rightarrow> ('e \<Rightarrow> nat list) \<Rightarrow> 'a::comm_ring_1 mpoly list \<Rightarrow> 'a mpoly list" where
  "nonaug_L E fc gs =
     [psub (psum [gs ! i. i \<leftarrow> fc x]) (psum [gs ! i. i \<leftarrow> fc y]).
        (j, x) \<leftarrow> enumerate 0 E, y \<leftarrow> drop (j + 1) E]"

definition nonaug_gens_constructor ::
    "'e matroid \<Rightarrow> ('e key, 'a::comm_ring_1 mpoly) dict \<Rightarrow> poly_ring \<Rightarrow> error + 'a mpoly list" where
  "nonaug_gens_constructor M fg R =
     (let E = groundset M; fs = flat_keys (dict_keys fg) in
      case flats_containing_index E fs of
        Inl e \<Rightarrow> Inl e
      | Inr fc \<Rightarrow> Inr (nonaug_Q fs (ring_gens R) @ nonaug_L E fc (ring_gens R)))"

text \<open>\<^verbatim>\<open>ChowRingIdeal_nonaug.__init__\<close>\<close>

definition ChowRingIdeal_nonaug :: "'e matroid \<Rightarrow> error + ('e, 'a::comm_ring_1) chow_ring_ideal" where
  "ChowRingIdeal_nonaug M =
     (let fs = proper_flats M;
          R = length fs;
          fg = dict_of (zip (map Flat fs) (ring_gens R)) in
      case nonaug_gens_constructor M fg R of
        Inl e \<Rightarrow> Inl e
      | Inr g \<Rightarrow> Inr \<lparr>matroid_of = M, flats_generator = fg, ring = R, gens = g\<rparr>)"

text \<open>
  \<^verbatim>\<open>itertools.combinations(xs, r)\<close>: the sub-sequences of length \<open>r\<close>, in lexicographic
  order of positions.
\<close>

fun combinations :: "'a list \<Rightarrow> nat \<Rightarrow> 'a list list" where
  "combinations xs 0 = [[]]"
| "combinations [] (Suc r) = []"
| "combinations (x # xs) (Suc r) = map ((#) x) (combinations xs r) @ combinations xs (Suc r)"

definition subsets :: "'a list \<Rightarrow> 'a list list" where
  "subsets xs = [s. r \<leftarrow> [0..<length xs + 1], s \<leftarrow> combinations xs r]"

text \<open>
  The first loop over \<^verbatim>\<open>sorted_list\<close> (commented ``checking whether the subset is a
  chain''): the flag falls as soon as two neighbours have the same number of elements.
\<close>

fun chain_flag :: "'e set list \<Rightarrow> bool" where
  "chain_flag (a # b # xs) = (if card b = card a then False else chain_flag (b # xs))"
| "chain_flag xs = True"

text \<open>
  The double loop over \<open>j < k\<close>: the flag falls when an earlier member is a proper subset
  of a later one; the \<^verbatim>\<open>break\<close> leaves the inner loop only.
\<close>

fun maximal_flag :: "'e set list \<Rightarrow> bool" where
  "maximal_flag [] = True"
| "maximal_flag (a # xs) = ((\<forall>b \<in> set xs. \<not> (a \<noteq> b \<and> a \<subseteq> b)) \<and> maximal_flag xs)"

text \<open>What one subset appends to \<^verbatim>\<open>gb\<close>.\<close>

definition nonaug_gb_subset ::
    "'e matroid \<Rightarrow> ('e key, 'a::comm_ring_1 mpoly) dict \<Rightarrow> 'e set list \<Rightarrow> 'e set list \<Rightarrow> 'a mpoly list" where
  "nonaug_gb_subset M fg fs sub =
     (let sorted_list = sort_key card sub in
      if \<not> chain_flag sorted_list then
        [pprod [dict_get fg (Flat x). x \<leftarrow> sub]]
      else if sub = [] then
        [ppow (psum [dict_get fg (Flat G). G \<leftarrow> fs, F \<subseteq> G]) (rank M F). F \<leftarrow> fs]
      else if maximal_flag sorted_list then
        concat [let term = pprod [dict_get fg (Flat x). x \<leftarrow> sub];
                    term1 = psum [dict_get fg (Flat G). G \<leftarrow> fs, F \<subseteq> G]
                in if term1 \<noteq> pzero
                   then [pmul term (ppow term1 (rank M F - rank M (last sorted_list)))]
                   else [].
                F \<leftarrow> fs, \<Union> (set sorted_list) \<subset> F]
      else [])"

text \<open>
  \<^verbatim>\<open>ChowRingIdeal_nonaug.groebner_basis\<close>.  The result is \<open>Inr None\<close> when the method
  returns \<^verbatim>\<open>None\<close>.  \<open>generic\<close> is the generic Groebner basis computation of the
  substrate, \<^verbatim>\<open>MPolynomialIdeal.groebner_basis\<close>, applied to the generators of the ideal.
\<close>

definition groebner_basis_nonaug ::
    "('a::comm_ring_1 mpoly list \<Rightarrow> error + 'a mpoly list) \<Rightarrow> ('e, 'a) chow_ring_ideal \<Rightarrow> string
      \<Rightarrow> error + 'a mpoly list option" where
  "groebner_basis_nonaug generic I algorithm =
     (if algorithm = '''' then
        (let fs = remove1 {} (flat_keys (dict_keys (flats_generator I)))
         in Inr (Some (concat [nonaug_gb_subset (matroid_of I) (flats_generator I) fs sub.
                                 sub \<leftarrow> subsets fs])))
      else if algorithm = ''constructed'' then
        (case generic (gens I) of Inl e \<Rightarrow> Inl e | Inr basis \<Rightarrow> Inr None)
      else Inr None)"

subsection \<open>The augmented presentation of Feitchner and Yuzvinsky\<close>

text \<open>\<^verbatim>\<open>AugmentedChowRingIdeal_fy._gens_constructor\<close>: the quadratic and the linear part.\<close>

definition fy_Q :: "('e key, 'a::comm_ring_1 mpoly) dict \<Rightarrow> 'e set list \<Rightarrow> 'a mpoly list" where
  "fy_Q fg fs =
     [pmul (dict_get fg (Flat F)) (dict_get fg (Flat G)).
        F \<leftarrow> fs, G \<leftarrow> fs, \<not> (F \<subset> G \<or> G \<subset> F)]"

definition fy_L ::
    "('e key, 'a::comm_ring_1 mpoly) dict \<Rightarrow> 'e list \<Rightarrow> 'e set list \<Rightarrow> ('e \<Rightarrow> 'e set list) \<Rightarrow> 'a mpoly list" where
  "fy_L fg E fs fc =
     [psub (dict_get fg (Elem x)) (psum [dict_get fg (Flat F). F \<leftarrow> fs, F \<notin> set (fc x)]).
        x \<leftarrow> E]"

definition fy_gens_constructor ::
    "'e matroid \<Rightarrow> ('e key, 'a::comm_ring_1 mpoly) dict \<Rightarrow> 'e set list \<Rightarrow> error + 'a mpoly list" where
  "fy_gens_constructor M fg fs =
     (let E = groundset M in
      case flats_containing E fs of
        Inl e \<Rightarrow> Inl e
      | Inr fc \<Rightarrow> Inr (fy_Q fg fs @ fy_L fg E fs fc))"

text \<open>\<^verbatim>\<open>AugmentedChowRingIdeal_fy.__init__\<close>\<close>

definition AugmentedChowRingIdeal_fy ::
    "'e matroid \<Rightarrow> error + ('e, 'a::comm_ring_1) augmented_chow_ring_ideal" where
  "AugmentedChowRingIdeal_fy M =
     (let fs = proper_flats M;
          E = groundset M;
          R = length E + length fs;
          fg = dict_of ([(Elem x, ring_gens R ! i). (i, x) \<leftarrow> enumerate 0 E] @
                        [(Flat F, ring_gens R ! (length E + i)). (i, F) \<leftarrow> enumerate 0 fs]) in
      case fy_gens_constructor M fg fs of
        Inl e \<Rightarrow> Inl e
      | Inr g \<Rightarrow> Inr \<lparr>matroid_of = M, flats_generator = fg, ring = R, gens = g, flats_of = fs\<rparr>)"

text \<open>
  The places of \<^verbatim>\<open>AugmentedChowRingIdeal_fy.groebner_basis\<close> that append to \<^verbatim>\<open>gb\<close>, named
  after the source's comments.
\<close>

datatype fy_rule =
  NonNestedFlats | Rule57 | Rule56 | ElementInFlat | ElementNotInFlat | NestedFlats

text \<open>The body of the loop \<^verbatim>\<open>for i in E\<close>, each appended term with the place it comes from.\<close>

definition fy_gb_element ::
    "'e matroid \<Rightarrow> ('e key, 'a::comm_ring_1 mpoly) dict \<Rightarrow> 'e set list \<Rightarrow> 'e set \<Rightarrow> 'e set \<Rightarrow> 'e
      \<Rightarrow> (fy_rule \<times> 'a mpoly) list" where
  "fy_gb_element M fg fs F G i =
     (let term = psum [dict_get fg (Flat H). H \<leftarrow> fs, i \<in> H];
          term1 = psum [dict_get fg (Flat H). H \<leftarrow> fs, G \<subset> H]
      in (if term \<noteq> pzero then [(Rule57, padd (dict_get fg (Elem i)) term)] else []) @
         (if term1 \<noteq> pzero then [(Rule56, padd (ppow term1 (rank M G)) pone)] else []) @
         (if i \<in> G then
            (if term1 \<noteq> pzero
             then [(ElementInFlat, pmul (dict_get fg (Elem i)) (ppow term1 (rank M G)))]
             else [])
          else if \<not> i \<in> G then
            [(ElementNotInFlat, pmul (dict_get fg (Elem i)) (dict_get fg (Flat F)))]
          else if G \<subset> F then
            [(NestedFlats, pmul (dict_get fg (Flat G)) (ppow term1 (rank M F - rank M G)))]
          else []))"

definition fy_gb_trace ::
    "('e, 'a::comm_ring_1) augmented_chow_ring_ideal \<Rightarrow> (fy_rule \<times> 'a mpoly) list" where
  "fy_gb_trace I =
     (let M = matroid_of I; fg = flats_generator I; fs = flats_of I; E = groundset M in
      concat [(if \<not> (F \<subset> G \<or> G \<subset> F)
               then [(NonNestedFlats, pmul (dict_get fg (Flat F)) (dict_get fg (Flat G)))]
               else []) @
              concat [fy_gb_element M fg fs F G i. i \<leftarrow> E].
              F \<leftarrow> fs, G \<leftarrow> fs])"

definition groebner_basis_fy ::
    "('a::comm_ring_1 mpoly list \<Rightarrow> error + 'a mpoly list) \<Rightarrow> ('e, 'a) augmented_chow_ring_ideal
      \<Rightarrow> string \<Rightarrow> error + 'a mpoly list option" where
  "groebner_basis_fy generic I algorithm =
     (if algorithm = '''' then Inr (Some (map snd (fy_gb_trace I)))
      else if algorithm = ''constructed'' then
        (case generic (gens I) of Inl e \<Rightarrow> Inl e | Inr basis \<Rightarrow> Inr None)
      else Inr None)"

subsection \<open>The augmented atom-free presentation\<close>

text \<open>\<^verbatim>\<open>AugmentedChowRingIdeal_atom_free._gens_constructor\<close>\<close>

definition atom_free_Q ::
    "('e key, 'a::comm_ring_1 mpoly) dict \<Rightarrow> 'e list \<Rightarrow> 'e set list \<Rightarrow> ('e \<Rightarrow> 'e set list) \<Rightarrow> 'a mpoly list" where
  "atom_free_Q fg E fs fc =
     concat [(if \<not> (F \<subset> G \<or> G \<subset> F)
              then [pmul (dict_get fg (Flat F)) (dict_get fg (Flat G))] else []) @
             concat [[ppow (psum [dict_get fg (Flat H). H \<leftarrow> fc x]) 2] @
                     (if F \<notin> set (fc x)
                      then [pmul (dict_get fg (Flat F)) (psum [dict_get fg (Flat H). H \<leftarrow> fc x])]
                      else []).
                     x \<leftarrow> E].
             F \<leftarrow> fs, G \<leftarrow> fs]"

definition atom_free_gens_constructor ::
    "'e matroid \<Rightarrow> ('e key, 'a::comm_ring_1 mpoly) dict \<Rightarrow> 'e set list \<Rightarrow> error + 'a mpoly list" where
  "atom_free_gens_constructor M fg fs =
     (let E = groundset M in
      case flats_containing E fs of
        Inl e \<Rightarrow> Inl e
      | Inr fc \<Rightarrow> Inr (atom_free_Q fg E fs fc))"

text \<open>
  \<^verbatim>\<open>AugmentedChowRingIdeal_atom_free.__init__\<close>; it fills a dictionary
  \<^verbatim>\<open>flats_containing\<close> of its own before it builds the ring.
\<close>

definition AugmentedChowRingIdeal_atom_free ::
    "'e matroid \<Rightarrow> error + ('e, 'a::comm_ring_1) augmented_chow_ring_ideal" where
  "AugmentedChowRingIdeal_atom_free M =
     (let fs = proper_flats M;
          E = groundset M in
      case flats_containing_index E fs of
        Inl e \<Rightarrow> Inl e
      | Inr fc \<Rightarrow>
         (let R = length fs;
              fg = dict_of (zip (map Flat fs) (ring_gens R)) in
          case atom_free_gens_constructor M fg fs of
            Inl e \<Rightarrow> Inl e
          | Inr g \<Rightarrow>
              Inr \<lparr>matroid_of = M, flats_generator = fg, ring = R, gens = g, flats_of = fs\<rparr>))"

text \<open>\<^verbatim>\<open>AugmentedChowRingIdeal_atom_free.groebner_basis\<close>\<close>

definition atom_free_gb ::
    "'e matroid \<Rightarrow> ('e key, 'a::comm_ring_1 mpoly) dict \<Rightarrow> 'e set list \<Rightarrow> 'a mpoly list" where
  "atom_free_gb M fg fs =
     concat [if \<not> (G \<subset> F \<or> F \<subset> G) then
               [pmul (dict_get fg (Flat F)) (dict_get fg (Flat G))]
             else if F \<subset> G then
               (let term = psum [dict_get fg (Flat H). H \<leftarrow> fs, H \<subset> F]
                in if term \<noteq> pzero
                   then [pmul (pmul (dict_get fg (Flat F)) (ppow term (rank M G)))
                              (ppow term (rank M G - rank M F))]
                   else [])
             else [].
             F \<leftarrow> fs, G \<leftarrow> fs]"

definition groebner_basis_atom_free ::
    "('a::comm_ring_1 mpoly list \<Rightarrow> error + 'a mpoly list) \<Rightarrow> ('e, 'a) augmented_chow_ring_ideal
      \<Rightarrow> string \<Rightarrow> error + 'a mpoly list option" where
  "groebner_basis_atom_free generic I algorithm =
     (if algorithm = '''' then
        Inr (Some (atom_free_gb (matroid_of I) (flats_generator I)
                     (remove1 {} (proper_flats (matroid_of I)))))
      else if algorithm = ''constructed'' then
        (case generic (gens I) of Inl e \<Rightarrow> Inl e | Inr basis \<Rightarrow> Inr None)
      else Inr None)"

section \<open>Small matroids\<close>

text \<open>
  The graphic matroid of the 3-cycle: three elements, every pair a basis, the flats of
  rank 1 are the singletons.
\<close>

definition cycle3 :: "nat matroid" where
  "cycle3 = \<lparr>groundset = [0, 1, 2], rank = (\<lambda>X. min (card X) 2),
     flats = (\<lambda>r. if r = 0 then [{}] else if r = 1 then [{0}, {1}, {2}]
                   else if r = 2 then [{0, 1, 2}] else [])\<rparr>"

text \<open>
  The matroid on \<open>a, b, c\<close> (here 0, 1, 2) with bases \<open>ab\<close> and \<open>ac\<close>: \<open>b\<close> and \<open>c\<close> are
  parallel, the flats of rank 1 are \<open>{a}\<close> and \<open>{b, c}\<close>.
\<close>

definition abc :: "nat matroid" where
  "abc = \<lparr>groundset = [0, 1, 2],
     rank = (\<lambda>X. (if 0 \<in> X then 1 else 0) + (if 1 \<in> X \<or> 2 \<in> X then 1 else 0)),
     flats = (\<lambda>r. if r = 0 then [{}] else if r = 1 then [{0}, {1, 2}]
                   else if r = 2 then [{0, 1, 2}] else [])\<rparr>"

text \<open>The matroid of one loop, of rank 0, and the matroid of rank 1 on one element.\<close>

definition loop :: "nat matroid" where
  "loop = \<lparr>groundset = [0], rank = (\<lambda>X. 0), flats = (\<lambda>r. if r = 0 then [{0}] else [])\<rparr>"

definition point :: "nat matroid" where
  "point = \<lparr>groundset = [0], rank = (\<lambda>X. min (card X) 1),
     flats = (\<lambda>r. if r = 0 then [{}] else if r = 1 then [{0}] else [])\<rparr>"

text \<open>
  The unordered pairs of incomparable flats of a collection: neither flat of a pair
  contains the other.
\<close>

definition incomparable_pairs :: "'e set list \<Rightarrow> 'e set set set" where
  "incomparable_pairs fs =
     {{F, G} |F G. F \<in> set fs \<and> G \<in> set fs \<and> \<not> F \<subseteq> G \<and> \<not> G \<subseteq> F}"

text \<open>A proper flat has an element outside the groundset.\<close>

definition flat_outside_groundset :: "'e matroid \<Rightarrow> bool" where
  "flat_outside_groundset M = (\<exists>F \<in> set (proper_flats M). \<not> F \<subseteq> set (groundset M))"

section \<open>The ideals of the small matroids\<close>

text \<open>The three presentations of the 3-cycle, as the constructors build them.\<close>

definition cycle3_nonaug :: "(nat, 'a::comm_ring_1) chow_ring_ideal" where
  "cycle3_nonaug = \<lparr>matroid_of = cycle3,
     flats_generator = [(Flat {0}, pvar 0), (Flat {1}, pvar 1), (Flat {2}, pvar 2)],
     ring = 3,
     gens = [pmul (pvar 0) (pvar 1), pmul (pvar 0) (pvar 2), pmul (pvar 1) (pvar 2),
             psub (pvar 0) (pvar 1), psub (pvar 0) (pvar 2), psub (pvar 1) (pvar 2)]\<rparr>"

text \<open>
  The basis that the docstring of \<^verbatim>\<open>ChowRingIdeal_nonaug.groebner_basis\<close> prints for the
  3-cycle: \<^verbatim>\<open>[A0, A1, A2, A0*A1, A0*A2, A1*A2, A0*A1*A2]\<close>.
\<close>

definition cycle3_basis :: "'a::comm_ring_1 mpoly list" where
  "cycle3_basis = [pvar 0, pvar 1, pvar 2,
                   pmul (pvar 0) (pvar 1), pmul (pvar 0) (pvar 2), pmul (pvar 1) (pvar 2),
                   pmul (pmul (pvar 0) (pvar 1)) (pvar 2)]"

definition cycle3_fy :: "(nat, 'a::comm_ring_1) augmented_chow_ring_ideal" where
  "cycle3_fy = \<lparr>matroid_of = cycle3,
     flats_generator = [(Elem 0, pvar 0), (Elem 1, pvar 1), (Elem 2, pvar 2),
                        (Flat {0}, pvar 3), (Flat {1}, pvar 4), (Flat {2}, pvar 5)],
     ring = 6,
     gens = [pmul (pvar 3) (pvar 3), pmul (pvar 3) (pvar 4), pmul (pvar 3) (pvar 5),
             pmul (pvar 4) (pvar 3), pmul (pvar 4) (pvar 4), pmul (pvar 4) (pvar 5),
             pmul (pvar 5) (pvar 3), pmul (pvar 5) (pvar 4), pmul (pvar 5) (pvar 5),
             psub (pvar 0) (padd (pvar 4) (pvar 5)),
             psub (pvar 1) (padd (pvar 3) (pvar 5)),
             psub (pvar 2) (padd (pvar 3) (pvar 4))],
     flats_of = [{0}, {1}, {2}]\<rparr>"

definition cycle3_atom_free :: "(nat, 'a::comm_ring_1) augmented_chow_ring_ideal" where
  "cycle3_atom_free = \<lparr>matroid_of = cycle3,
     flats_generator = [(Flat {0}, pvar 0), (Flat {1}, pvar 1), (Flat {2}, pvar 2)],
     ring = 3,
     gens = atom_free_Q [(Flat {0}, pvar 0), (Flat {1}, pvar 1), (Flat {2}, pvar 2)]
              [0, 1, 2] [{0}, {1}, {2}] (\<lambda>x::nat. [F. F \<leftarrow> [{0}, {1}, {2}], x \<in> F]),
     flats_of = [{0}, {1}, {2}]\<rparr>"

text \<open>The non-augmented presentation of the matroid with bases \<open>ab\<close> and \<open>ac\<close>.\<close>

definition abc_nonaug :: "(nat, 'a::comm_ring_1) chow_ring_ideal" where
  "abc_nonaug = \<lparr>matroid_of = abc,
     flats_generator = [(Flat {0}, pvar 0), (Flat {1, 2}, pvar 1)],
     ring = 2,
     gens = [pmul (pvar 0) (pvar 1), psub (pvar 0) (pvar 1), psub (pvar 0) (pvar 1), pzero]\<rparr>"

section \<open>Evaluation is a ring homomorphism\<close>

lemma meval_mmul: "meval \<rho> (mmul a b) = meval \<rho> a * meval \<rho> b"
  by (induction a b rule: mmul.induct) (simp_all add: meval_def ac_simps)

lemma peval_Cons: "peval \<rho> ((m, c) # p) = c * meval \<rho> m + peval \<rho> p"
  by (simp add: peval_def)

lemma peval_Nil: "peval \<rho> [] = 0"
  by (simp add: peval_def)

lemma peval_padd: "peval \<rho> (padd p q) = peval \<rho> p + peval \<rho> q"
proof (induction p q rule: padd.induct)
  case (1 q)
  show ?case by (simp add: peval_Nil)
next
  case (2 v va)
  show ?case by (simp add: peval_Nil)
next
  case (3 m c p n d q)
  show ?case
  proof (cases "m < n")
    case True
    with 3 show ?thesis by (simp add: peval_Cons)
  next
    case False
    note nlt = this
    show ?thesis
    proof (cases "n < m")
      case True
      with nlt 3 show ?thesis by (simp add: peval_Cons)
    next
      case False
      with nlt have eq: "m = n" by simp
      have split: "c * meval \<rho> n + d * meval \<rho> n = (c + d) * meval \<rho> n"
        by (simp add: algebra_simps)
      show ?thesis
      proof (cases "c + d = 0")
        case True
        with 3 nlt False eq split show ?thesis by (simp add: peval_Cons)
      next
        case nz: False
        with 3 nlt False eq show ?thesis by (simp add: peval_Cons algebra_simps)
      qed
    qed
  qed
qed

lemma peval_pscale: "peval \<rho> (pscale m c q) = c * meval \<rho> m * peval \<rho> q"
proof (induction q)
  case Nil
  show ?case by (simp add: peval_Nil)
next
  case (Cons a q)
  obtain n d where a: "a = (n, d)" by (cases a)
  show ?case
    using Cons
    by (simp add: a peval_padd peval_Cons peval_Nil meval_mmul algebra_simps)
       (metis mult.assoc mult_zero_left)
qed

lemma peval_pmul: "peval \<rho> (pmul p q) = peval \<rho> p * peval \<rho> q"
proof (induction p)
  case Nil
  show ?case by (simp add: peval_Nil)
next
  case (Cons a p)
  obtain m c where a: "a = (m, c)" by (cases a)
  show ?case using Cons by (simp add: a peval_padd peval_pscale peval_Cons algebra_simps)
qed

lemma peval_foldl_padd:
  "peval \<rho> (foldl padd a ps) = peval \<rho> a + sum_list (map (peval \<rho>) ps)"
  by (induction ps arbitrary: a) (simp_all add: peval_padd)

lemma peval_psum: "peval \<rho> (psum ps) = sum_list (map (peval \<rho>) ps)"
  by (simp add: psum_def peval_foldl_padd pzero_def peval_Nil)

lemma dvd_sum_list_products:
  fixes k :: "'a::comm_ring_1"
  shows "length hs = length gs \<Longrightarrow> \<forall>g \<in> set gs. k dvd f g
    \<Longrightarrow> k dvd sum_list (map (\<lambda>(h, g). e h * f g) (zip hs gs))"
  by (induction hs gs rule: list_induct2) simp_all

text \<open>
  A value that divides every generator at a point divides every member of the ideal
  there.
\<close>

lemma ideal_of_dvd:
  fixes k :: "'a::comm_ring_1"
  assumes "p \<in> ideal_of gs" and "\<forall>g \<in> set gs. k dvd peval \<rho> g"
  shows "k dvd peval \<rho> p"
proof -
  from assms(1) obtain hs where len: "length hs = length gs"
    and p: "p = psum (map2 pmul hs gs)"
    by (auto simp add: ideal_of_def)
  have "peval \<rho> p = sum_list (map (\<lambda>(h, g). peval \<rho> h * peval \<rho> g) (zip hs gs))"
    by (simp add: p peval_psum comp_def case_prod_unfold peval_pmul)
  with dvd_sum_list_products [OF len assms(2)] show ?thesis by simp
qed

section \<open>Evaluating the model\<close>

lemmas eval_simps =
  proper_flats_def full_rank_def ring_gens_def dict_of_def dict_keys_def dict_get_def
  flats_containing_index_def flats_containing_def
  nonaug_gens_constructor_def nonaug_Q_def nonaug_L_def nonaug_gb_subset_def subsets_def
  upt_rec enumerate_eq_zip psubset_eq
  pvar_def pzero_def pone_def psub_def pneg_def psum_def pprod_def

lemma cycle3_proper_flats: "proper_flats cycle3 = [{0}, {1}, {2}]"
  by (simp add: cycle3_def proper_flats_def full_rank_def upt_rec)

lemma cycle3_groundset: "groundset cycle3 = [0, 1, 2]"
  by (simp add: cycle3_def)

lemma cycle3_nonaug_built:
  "(ChowRingIdeal_nonaug cycle3 :: error + (nat, 'a::comm_ring_1) chow_ring_ideal) = Inr cycle3_nonaug"
  by (simp add: ChowRingIdeal_nonaug_def cycle3_nonaug_def cycle3_def eval_simps)

lemma abc_nonaug_built:
  "(ChowRingIdeal_nonaug abc :: error + (nat, 'a::comm_ring_1) chow_ring_ideal) = Inr abc_nonaug"
  by (simp add: ChowRingIdeal_nonaug_def abc_nonaug_def abc_def eval_simps)

lemma cycle3_fy_generator:
  "dict_of ([(Elem x, ring_gens (length [0, 1, 2::nat] + length [{0}, {1}, {2::nat}]) ! i).
               (i, x) \<leftarrow> enumerate 0 [0, 1, 2::nat]] @
            [(Flat F, ring_gens (length [0, 1, 2::nat] + length [{0}, {1}, {2::nat}])
                        ! (length [0, 1, 2::nat] + i)).
               (i, F) \<leftarrow> enumerate 0 [{0}, {1}, {2::nat}]])
   = flats_generator (cycle3_fy :: (nat, 'a::comm_ring_1) augmented_chow_ring_ideal)"
  by (simp add: ring_gens_def upt_rec enumerate_eq_zip dict_of_def pvar_def cycle3_fy_def)

lemma cycle3_fy_gens:
  "fy_gens_constructor cycle3
     (flats_generator (cycle3_fy :: (nat, 'a::comm_ring_1) augmented_chow_ring_ideal)) [{0}, {1}, {2}]
   = Inr (gens (cycle3_fy :: (nat, 'a) augmented_chow_ring_ideal))"
  by (simp add: fy_gens_constructor_def cycle3_groundset flats_containing_def fy_Q_def fy_L_def
      dict_get_def psubset_eq psum_def pzero_def cycle3_fy_def)

lemma cycle3_fy_built:
  "(AugmentedChowRingIdeal_fy cycle3 :: error + (nat, 'a::comm_ring_1) augmented_chow_ring_ideal)
     = Inr cycle3_fy"
  unfolding AugmentedChowRingIdeal_fy_def Let_def cycle3_groundset cycle3_proper_flats
    cycle3_fy_generator cycle3_fy_gens
  by (simp add: cycle3_fy_def)

lemma cycle3_atom_free_built:
  "(AugmentedChowRingIdeal_atom_free cycle3 :: error + (nat, 'a::comm_ring_1) augmented_chow_ring_ideal)
     = Inr cycle3_atom_free"
  by (simp add: AugmentedChowRingIdeal_atom_free_def cycle3_atom_free_def cycle3_def
      proper_flats_def full_rank_def ring_gens_def dict_of_def flats_containing_index_def
      flats_containing_def atom_free_gens_constructor_def upt_rec Let_def
      numeral_2_eq_2 numeral_3_eq_3)

section \<open>The ideal of the combinatorial basis\<close>

lemma cycle3_basis_computed:
  "groebner_basis_nonaug generic (cycle3_nonaug :: (nat, 'a::comm_ring_1) chow_ring_ideal) ''''
     = Inr (Some cycle3_basis)"
  by (simp add: groebner_basis_nonaug_def cycle3_nonaug_def cycle3_def eval_simps
      cycle3_basis_def)

lemma atom_in_cycle3_basis_ideal: "(pvar 0 :: int mpoly) \<in> ideal_of cycle3_basis"
proof -
  have "(pvar 0 :: int mpoly)
      = psum (map2 pmul [pone, pzero, pzero, pzero, pzero, pzero, pzero] cycle3_basis)"
    by (simp add: cycle3_basis_def psum_def pone_def pzero_def pvar_def)
  then show ?thesis
    unfolding ideal_of_def
    by (intro CollectI exI [of _ "[pone, pzero, pzero, pzero, pzero, pzero, pzero]"])
       (simp add: cycle3_basis_def)
qed

text \<open>
  At the point where every indeterminate is 2, each generator of the ideal of the
  3-cycle is a multiple of 4, and the indeterminate of the first atom is not.
\<close>

lemma atom_not_in_cycle3_ideal:
  "(pvar 0 :: int mpoly) \<notin> ideal_of (gens (cycle3_nonaug :: (nat, int) chow_ring_ideal))"
proof
  assume "(pvar 0 :: int mpoly) \<in> ideal_of (gens (cycle3_nonaug :: (nat, int) chow_ring_ideal))"
  moreover have "\<forall>g \<in> set (gens (cycle3_nonaug :: (nat, int) chow_ring_ideal)).
      (4::int) dvd peval (\<lambda>i. 2) g"
    by (simp add: cycle3_nonaug_def peval_pmul psub_def peval_padd)
       (simp add: pvar_def pneg_def peval_def meval_def)
  ultimately have "(4::int) dvd peval (\<lambda>i. 2) (pvar 0)"
    by (rule ideal_of_dvd)
  then show False
    by (simp add: pvar_def peval_def meval_def)
qed

text \<open>
  Claim C1.  Over the integers, the non-augmented ideal of the 3-cycle is built from the
  generators of \<open>cycle3_nonaug\<close>, and the combinatorial engine returns \<open>cycle3_basis\<close>.
  The two sequences span different ideals: the indeterminate of the first atom lies in
  the ideal of the basis (it is one of its members) and not in the ideal of the
  generators.
\<close>

theorem cycle3_basis_spans_another_ideal:
  "ChowRingIdeal_nonaug cycle3 = Inr (cycle3_nonaug :: (nat, int) chow_ring_ideal) \<and>
   groebner_basis_nonaug generic (cycle3_nonaug :: (nat, int) chow_ring_ideal) ''''
     = Inr (Some cycle3_basis) \<and>
   pvar 0 \<in> ideal_of (cycle3_basis :: int mpoly list) \<and>
   pvar 0 \<notin> ideal_of (gens (cycle3_nonaug :: (nat, int) chow_ring_ideal))"
  using cycle3_nonaug_built cycle3_basis_computed atom_in_cycle3_basis_ideal
    atom_not_in_cycle3_ideal
  by blast

section \<open>The algorithm selector\<close>

text \<open>
  Claim C2.  With the selector of the generic computation, \<^verbatim>\<open>'constructed'\<close> (the default
  of the parameter), each of the three \<^verbatim>\<open>groebner_basis\<close> methods calls the generic
  computation and drops its result: whatever the generic computation gives, the method
  never returns a basis.  It returns \<^verbatim>\<open>None\<close>, or the error of the generic computation.
\<close>

theorem groebner_basis_constructed_returns_no_basis:
  "groebner_basis_nonaug generic I ''constructed'' \<noteq> Inr (Some B) \<and>
   groebner_basis_fy generic J ''constructed'' \<noteq> Inr (Some B) \<and>
   groebner_basis_atom_free generic K ''constructed'' \<noteq> Inr (Some B)"
  by (simp add: groebner_basis_nonaug_def groebner_basis_fy_def groebner_basis_atom_free_def
      split: sum.split)

text \<open>
  Claim C3, as amended.  A selector that is neither the empty string (the combinatorial
  engine) nor \<^verbatim>\<open>'constructed'\<close> makes each of the three methods fall through both
  branches: it returns \<^verbatim>\<open>None\<close> and raises nothing.
\<close>

theorem groebner_basis_other_selector:
  assumes "algorithm \<noteq> ''''" and "algorithm \<noteq> ''constructed''"
  shows "groebner_basis_nonaug generic I algorithm = Inr None \<and>
         groebner_basis_fy generic J algorithm = Inr None \<and>
         groebner_basis_atom_free generic K algorithm = Inr None"
  using assms
  by (simp add: groebner_basis_nonaug_def groebner_basis_fy_def groebner_basis_atom_free_def)

theorem groebner_basis_other_selector_witness:
  "''buchberger'' \<noteq> '''' \<and> ''buchberger'' \<noteq> ''constructed'' \<and>
   groebner_basis_nonaug Inr (cycle3_nonaug :: (nat, int) chow_ring_ideal) ''buchberger''
     = Inr None \<and>
   groebner_basis_fy Inr (cycle3_fy :: (nat, int) augmented_chow_ring_ideal) ''buchberger''
     = Inr None \<and>
   groebner_basis_atom_free Inr (cycle3_atom_free :: (nat, int) augmented_chow_ring_ideal)
     ''buchberger'' = Inr None"
  using groebner_basis_other_selector [of "''buchberger''" Inr
          "cycle3_nonaug :: (nat, int) chow_ring_ideal"
          "cycle3_fy :: (nat, int) augmented_chow_ring_ideal"
          "cycle3_atom_free :: (nat, int) augmented_chow_ring_ideal"]
  by simp

text \<open>
  The claim as stated fails: on the ideal of the 3-cycle the selector \<^verbatim>\<open>'buchberger'\<close>
  gives the return value \<^verbatim>\<open>None\<close>, not an error.
\<close>

theorem unsupported_selector_counterexample:
  "groebner_basis_nonaug Inr (cycle3_nonaug :: (nat, int) chow_ring_ideal) ''buchberger''
     = Inr None"
  by (simp add: groebner_basis_nonaug_def)

section \<open>The engine of the Feitchner-Yuzvinsky presentation\<close>

text \<open>
  Claim C10.  The combinatorial engine returns the terms of its trace, and no term of
  the trace comes from the branch \<^verbatim>\<open>elif G < F\<close>: the guards \<^verbatim>\<open>if i in G\<close> and
  \<^verbatim>\<open>elif not i in G\<close> before it leave no case over.
\<close>

theorem fy_nested_branch_unreachable:
  "groebner_basis_fy generic I '''' = Inr (Some (map snd (fy_gb_trace I))) \<and>
   NestedFlats \<notin> fst ` set (fy_gb_trace I)"
  by (auto simp add: groebner_basis_fy_def fy_gb_trace_def fy_gb_element_def Let_def
      split: if_splits)

theorem fy_nested_branch_unreachable_witness:
  "groebner_basis_fy Inr (cycle3_fy :: (nat, int) augmented_chow_ring_ideal) ''''
     = Inr (Some (map snd (fy_gb_trace (cycle3_fy :: (nat, int) augmented_chow_ring_ideal)))) \<and>
   NestedFlats \<notin> fst ` set (fy_gb_trace (cycle3_fy :: (nat, int) augmented_chow_ring_ideal))"
  using fy_nested_branch_unreachable [of Inr "cycle3_fy :: (nat, int) augmented_chow_ring_ideal"]
  by simp

section \<open>The engine of the non-augmented presentation\<close>

text \<open>
  Claim C9, as amended.  For the graphic matroid of the 3-cycle the constructor builds
  \<open>cycle3_nonaug\<close>, and the combinatorial engine returns seven terms: the three
  indeterminates of the atoms, their three pairwise products and their triple product.
\<close>

theorem cycle3_groebner_basis:
  "ChowRingIdeal_nonaug cycle3 = Inr (cycle3_nonaug :: (nat, 'a::comm_ring_1) chow_ring_ideal) \<and>
   groebner_basis_nonaug generic (cycle3_nonaug :: (nat, 'a) chow_ring_ideal) '''' =
     Inr (Some [pvar 0, pvar 1, pvar 2,
                pmul (pvar 0) (pvar 1), pmul (pvar 0) (pvar 2), pmul (pvar 1) (pvar 2),
                pmul (pmul (pvar 0) (pvar 1)) (pvar 2)])"
  by (simp add: cycle3_nonaug_built)
     (simp add: groebner_basis_nonaug_def cycle3_nonaug_def cycle3_def eval_simps)

text \<open>
  The claim as stated fails: the basis holds the indeterminate of the first atom, which
  is none of the pairwise products and not the triple product.
\<close>

theorem cycle3_groebner_basis_counterexample:
  "groebner_basis_nonaug Inr (cycle3_nonaug :: (nat, int) chow_ring_ideal) '''' =
     Inr (Some [pvar 0, pvar 1, pvar 2,
                pmul (pvar 0) (pvar 1), pmul (pvar 0) (pvar 2), pmul (pvar 1) (pvar 2),
                pmul (pmul (pvar 0) (pvar 1)) (pvar 2)]) \<and>
   (pvar 0 :: int mpoly) \<notin> set [pmul (pvar 0) (pvar 1), pmul (pvar 0) (pvar 2),
                                pmul (pvar 1) (pvar 2), pmul (pmul (pvar 0) (pvar 1)) (pvar 2)]"
  by (simp add: groebner_basis_nonaug_def cycle3_nonaug_def cycle3_def eval_simps)

text \<open>
  Claim C4.  The engine takes a subset for a chain unless two of its members have the
  same number of elements.  In the matroid with bases \<open>ab\<close> and \<open>ac\<close> the flats \<open>{a}\<close> and
  \<open>{b, c}\<close> are incomparable, the subset of the two is enumerated, and it appends nothing:
  the product of the two indeterminates is missing from the basis.
\<close>

theorem nonaug_chain_test_by_size:
  "\<not> {0::nat} \<subseteq> {1, 2} \<and> \<not> {1, 2} \<subseteq> {0::nat} \<and>
   [{0}, {1, 2}] \<in> set (subsets (flat_keys (dict_keys
       (flats_generator (abc_nonaug :: (nat, int) chow_ring_ideal))))) \<and>
   nonaug_gb_subset abc (flats_generator (abc_nonaug :: (nat, int) chow_ring_ideal))
      [{0}, {1, 2}] [{0}, {1, 2}] = [] \<and>
   groebner_basis_nonaug Inr (abc_nonaug :: (nat, int) chow_ring_ideal) ''''
     = Inr (Some [pvar 0, pvar 1])"
  by (simp add: groebner_basis_nonaug_def abc_nonaug_def abc_def eval_simps)

section \<open>Dictionaries of generators\<close>

lemma dict_set_fresh: "k \<notin> fst ` set d \<Longrightarrow> dict_set d k v = d @ [(k, v)]"
  by (induction d) auto

lemma foldl_dict_set_distinct:
  "distinct (map fst (d @ kvs)) \<Longrightarrow> foldl (\<lambda>d (k, v). dict_set d k v) d kvs = d @ kvs"
proof (induction kvs arbitrary: d)
  case Nil
  show ?case by simp
next
  case (Cons a kvs)
  obtain k v where a: "a = (k, v)" by (cases a)
  from Cons.prems have fresh: "k \<notin> fst ` set d" by (auto simp add: a)
  from Cons.prems have "distinct (map fst ((d @ [(k, v)]) @ kvs))" by (simp add: a)
  from Cons.IH [OF this] show ?case by (simp add: a dict_set_fresh [OF fresh])
qed

lemma dict_of_distinct: "distinct (map fst kvs) \<Longrightarrow> dict_of kvs = kvs"
  using foldl_dict_set_distinct [of "[]" kvs] by (simp add: dict_of_def)

lemma dict_set_keys: "set (map fst (dict_set d k v)) = insert k (set (map fst d))"
proof (induction d)
  case Nil
  show ?case by simp
next
  case (Cons a d)
  obtain k' v' where a: "a = (k', v')" by (cases a)
  show ?case
  proof (cases "k' = k")
    case True
    then show ?thesis by (simp add: a del: set_map)
  next
    case False
    then show ?thesis using Cons by (simp add: a del: set_map) auto
  qed
qed

lemma foldl_dict_set_keys:
  "set (map fst (foldl (\<lambda>d (k, v). dict_set d k v) d kvs))
     = set (map fst d) \<union> set (map fst kvs)"
proof (induction kvs arbitrary: d)
  case Nil
  show ?case by simp
next
  case (Cons a kvs)
  obtain k v where a: "a = (k, v)" by (cases a)
  show ?case by (simp add: a Cons.IH dict_set_keys del: set_map)
qed

lemma dict_of_keys: "set (dict_keys (dict_of kvs)) = set (map fst kvs)"
  by (simp add: dict_keys_def dict_of_def foldl_dict_set_keys del: set_map)

lemma set_flat_keys: "set (flat_keys ks) = {F. Flat F \<in> set ks}"
  by (induction ks rule: flat_keys.induct) auto

lemma flat_keys_Flat: "flat_keys (map Flat fs) = fs"
  by (induction fs) simp_all

lemma nonaug_flat_keys:
  "set (flat_keys (dict_keys (dict_of (zip (map Flat fs) (ring_gens (length fs)))))) = set fs"
proof -
  have "map fst (zip (map Flat fs) (ring_gens (length fs) :: 'b mpoly list)) = map Flat fs"
    by (simp add: ring_gens_def)
  then show ?thesis
    by (auto simp add: set_flat_keys dict_of_keys)
qed

text \<open>
  The indeterminates of the Feitchner-Yuzvinsky presentation: the \<open>i\<close>-th element of the
  groundset gets the \<open>i\<close>-th generator of the ring, the \<open>j\<close>-th flat the generator
  \<open>|E| + j\<close>.
\<close>

lemma fy_generator_list:
  "[(Elem x, ring_gens (length E + length fs) ! i). (i, x) \<leftarrow> enumerate 0 E] @
   [(Flat F, ring_gens (length E + length fs) ! (length E + i)). (i, F) \<leftarrow> enumerate 0 fs]
   = zip (map Elem E @ map Flat fs) (map pvar [0..<length E + length fs])"
  by (rule nth_equalityI)
     (auto simp add: ring_gens_def nth_append nth_enumerate_eq)

lemma fy_generator_distinct:
  assumes "distinct E" and "distinct fs"
  shows "dict_of ([(Elem x, ring_gens (length E + length fs) ! i). (i, x) \<leftarrow> enumerate 0 E] @
   [(Flat F, ring_gens (length E + length fs) ! (length E + i)). (i, F) \<leftarrow> enumerate 0 fs])
   = zip (map Elem E @ map Flat fs) (map pvar [0..<length E + length fs])"
proof -
  have "distinct (map Elem E @ map Flat fs)"
    using assms by (auto simp add: distinct_map inj_on_def)
  then have "distinct (map fst (zip (map Elem E @ map Flat fs)
      (map pvar [0..<length E + length fs] :: 'b mpoly list)))"
    by simp
  from dict_of_distinct [OF this] show ?thesis
    by (simp only: fy_generator_list)
qed

lemma dict_get_zip_nth:
  "distinct ks \<Longrightarrow> length ks = length vs \<Longrightarrow> i < length ks
    \<Longrightarrow> dict_get (zip ks vs) (ks ! i) = vs ! i"
  by (simp add: dict_get_def map_of_zip_nth)

lemma fy_generator_elem:
  assumes "distinct E" and "distinct fs" and "i < length E"
  shows "dict_get (zip (map Elem E @ map Flat fs) (map pvar [0..<length E + length fs])) (Elem (E ! i))
    = pvar i"
proof -
  have d: "distinct (map Elem E @ map Flat fs)"
    using assms by (auto simp add: distinct_map inj_on_def)
  have "dict_get (zip (map Elem E @ map Flat fs) (map pvar [0..<length E + length fs]))
      ((map Elem E @ map Flat fs) ! i) = (map pvar [0..<length E + length fs]) ! i"
    using assms(3) by (intro dict_get_zip_nth [OF d]) simp_all
  with assms(3) show ?thesis by (simp add: nth_append)
qed

lemma fy_generator_flat:
  assumes "distinct E" and "distinct fs" and "j < length fs"
  shows "dict_get (zip (map Elem E @ map Flat fs) (map pvar [0..<length E + length fs])) (Flat (fs ! j))
    = pvar (length E + j)"
proof -
  have d: "distinct (map Elem E @ map Flat fs)"
    using assms by (auto simp add: distinct_map inj_on_def)
  have "dict_get (zip (map Elem E @ map Flat fs) (map pvar [0..<length E + length fs]))
      ((map Elem E @ map Flat fs) ! (length E + j)) = (map pvar [0..<length E + length fs]) ! (length E + j)"
    using assms(3) by (intro dict_get_zip_nth [OF d]) simp_all
  with assms(3) show ?thesis by (simp add: nth_append)
qed

text \<open>
  The lookups of the constructors and engines find their keys: every proper flat is a
  key of the dictionary that \<^verbatim>\<open>dict(zip(flats, gens))\<close> builds, and every element and
  every proper flat is a key of the dictionary of the Feitchner-Yuzvinsky presentation.
\<close>

lemma dict_lookup_defined: "k \<in> set (map fst kvs) \<Longrightarrow> map_of (dict_of kvs) k \<noteq> None"
proof -
  assume "k \<in> set (map fst kvs)"
  then have "k \<in> set (map fst (dict_of kvs))"
    using dict_of_keys [of kvs] by (simp add: dict_keys_def del: set_map)
  then show ?thesis
    by (simp add: map_of_eq_None_iff)
qed

lemma flat_lookup_defined:
  fixes fs :: "'e set list"
  assumes "F \<in> set fs"
  shows "map_of (dict_of (zip (map Flat fs) (ring_gens (length fs) :: 'a::comm_ring_1 mpoly list)))
           (Flat F) \<noteq> None"
proof (rule dict_lookup_defined)
  have "map fst (zip (map Flat fs) (ring_gens (length fs) :: 'a mpoly list)) = map Flat fs"
    by (simp add: ring_gens_def)
  with assms show "Flat F \<in> set (map fst (zip (map Flat fs) (ring_gens (length fs) :: 'a mpoly list)))"
    by simp
qed

lemma fy_lookup_defined:
  fixes E :: "'e list"
  assumes "k \<in> Elem ` set E \<union> Flat ` set fs"
  shows "map_of (dict_of
      ([(Elem x, (ring_gens (length E + length fs) :: 'a::comm_ring_1 mpoly list) ! i).
          (i, x) \<leftarrow> enumerate 0 E] @
       [(Flat F, ring_gens (length E + length fs) ! (length E + i)).
          (i, F) \<leftarrow> enumerate 0 fs])) k
    \<noteq> None"
proof (rule dict_lookup_defined)
  have "map fst (zip (map Elem E @ map Flat fs)
      (map pvar [0..<length E + length fs] :: 'a mpoly list)) = map Elem E @ map Flat fs"
    by simp
  with assms show "k \<in> set (map fst
      ([(Elem x, (ring_gens (length E + length fs) :: 'a mpoly list) ! i).
          (i, x) \<leftarrow> enumerate 0 E] @
       [(Flat F, ring_gens (length E + length fs) ! (length E + i)).
          (i, F) \<leftarrow> enumerate 0 fs]))"
    by (simp only: fy_generator_list) auto
qed

section \<open>Construction and its errors\<close>

text \<open>
  A constructor raises exactly when a proper flat has an element outside the groundset:
  the \<^verbatim>\<open>KeyError\<close> of \<^verbatim>\<open>flats_containing[x]\<close>.
\<close>

lemma nonaug_raises:
  "(ChowRingIdeal_nonaug M :: error + ('e, 'a::comm_ring_1) chow_ring_ideal) = Inl KeyError
     \<longleftrightarrow> flat_outside_groundset M"
  by (simp add: ChowRingIdeal_nonaug_def nonaug_gens_constructor_def Let_def
      flats_containing_index_def nonaug_flat_keys flat_outside_groundset_def)

lemma fy_raises:
  "(AugmentedChowRingIdeal_fy M :: error + ('e, 'a::comm_ring_1) augmented_chow_ring_ideal) = Inl KeyError
     \<longleftrightarrow> flat_outside_groundset M"
  by (simp add: AugmentedChowRingIdeal_fy_def fy_gens_constructor_def Let_def
      flats_containing_def flat_outside_groundset_def)

lemma atom_free_raises:
  "(AugmentedChowRingIdeal_atom_free M :: error + ('e, 'a::comm_ring_1) augmented_chow_ring_ideal) = Inl KeyError
     \<longleftrightarrow> flat_outside_groundset M"
  by (simp add: AugmentedChowRingIdeal_atom_free_def atom_free_gens_constructor_def Let_def
      flats_containing_def flats_containing_index_def flat_outside_groundset_def)

subsection \<open>Matroids of rank at most 1\<close>

lemma padd_Nil2: "padd p [] = p"
  by (cases p) simp_all

lemma psub_pzero: "psub p pzero = p"
  by (simp add: psub_def pneg_def pzero_def padd_Nil2)

lemma nonaug_low_rank:
  assumes "proper_flats M = []"
  shows "(ChowRingIdeal_nonaug M :: error + ('e, 'a::comm_ring_1) chow_ring_ideal)
    = Inr \<lparr>matroid_of = M, flats_generator = [], ring = 0,
           gens = nonaug_L (groundset M) (\<lambda>x. []) []\<rparr>"
  by (simp add: ChowRingIdeal_nonaug_def assms ring_gens_def dict_of_def
      nonaug_gens_constructor_def dict_keys_def flats_containing_index_def nonaug_Q_def)

lemma nonaug_L_trivial: "set (nonaug_L E (\<lambda>x. []) gs) \<subseteq> {pzero}"
  by (auto simp add: nonaug_L_def psum_def psub_pzero)

lemma atom_free_low_rank:
  assumes "proper_flats M = []"
  shows "(AugmentedChowRingIdeal_atom_free M :: error + ('e, 'a::comm_ring_1) augmented_chow_ring_ideal)
    = Inr \<lparr>matroid_of = M, flats_generator = [], ring = 0, gens = [], flats_of = []\<rparr>"
  by (simp add: AugmentedChowRingIdeal_atom_free_def assms ring_gens_def dict_of_def
      atom_free_gens_constructor_def flats_containing_index_def flats_containing_def
      atom_free_Q_def)

lemma fy_low_rank:
  assumes "proper_flats M = []" and "distinct (groundset M)"
  shows "(AugmentedChowRingIdeal_fy M :: error + ('e, 'a::comm_ring_1) augmented_chow_ring_ideal)
    = Inr \<lparr>matroid_of = M,
           flats_generator = zip (map Elem (groundset M)) (map pvar [0..<length (groundset M)]),
           ring = length (groundset M),
           gens = map pvar [0..<length (groundset M)], flats_of = []\<rparr>"
proof -
  let ?E = "groundset M"
  let ?fg = "zip (map Elem ?E) (map pvar [0..<length ?E]) :: ('e key, 'a mpoly) dict"
  have fg: "dict_of ([(Elem x, ring_gens (length ?E + length ([] :: 'e set list)) ! i).
                        (i, x) \<leftarrow> enumerate 0 ?E] @
                     [(Flat F, ring_gens (length ?E + length ([] :: 'e set list)) ! (length ?E + i)).
                        (i, F) \<leftarrow> enumerate 0 ([] :: 'e set list)]) = ?fg"
    using fy_generator_distinct [OF assms(2), of "[]"] by simp
  have "map (\<lambda>x. dict_get ?fg (Elem x)) ?E = map pvar [0..<length ?E]"
  proof (rule nth_equalityI)
    show "length (map (\<lambda>x. dict_get ?fg (Elem x)) ?E) = length (map pvar [0..<length ?E] :: 'a mpoly list)"
      by simp
  next
    fix i assume "i < length (map (\<lambda>x. dict_get ?fg (Elem x)) ?E)"
    then have i: "i < length ?E" by simp
    from fy_generator_elem [OF assms(2) _ i, of "[]"] i
    show "map (\<lambda>x. dict_get ?fg (Elem x)) ?E ! i = (map pvar [0..<length ?E] :: 'a mpoly list) ! i"
      by simp
  qed
  then have gens: "fy_gens_constructor M ?fg [] = Inr (map pvar [0..<length ?E])"
    by (simp add: fy_gens_constructor_def flats_containing_def fy_Q_def fy_L_def
        psum_def psub_pzero)
  show ?thesis
    unfolding AugmentedChowRingIdeal_fy_def Let_def assms(1) fg gens
    by simp
qed

lemma fy_low_rank_succeeds:
  assumes "proper_flats M = []"
  shows "\<exists>J. (AugmentedChowRingIdeal_fy M :: error + ('e, 'a::comm_ring_1) augmented_chow_ring_ideal)
           = Inr J \<and> flats_of J = []"
  by (simp add: AugmentedChowRingIdeal_fy_def Let_def assms fy_gens_constructor_def
      flats_containing_def)

lemma loop_proper_flats: "full_rank loop = 0 \<and> proper_flats loop = []"
  by (simp add: loop_def full_rank_def proper_flats_def)

lemma point_proper_flats: "full_rank point = 1 \<and> proper_flats point = []"
  by (simp add: point_def full_rank_def proper_flats_def)

text \<open>
  Claim C8, as amended.  No constructor looks at the rank of the matroid.  For a matroid
  of rank at most 0 the collection of proper flats is empty and each of the three
  constructors succeeds.
\<close>

theorem rank_0_construction_succeeds:
  assumes "full_rank M \<le> 0"
  shows "proper_flats M = [] \<and>
    (\<exists>I. (ChowRingIdeal_nonaug M :: error + ('e, 'a::comm_ring_1) chow_ring_ideal) = Inr I
          \<and> flats_generator I = []) \<and>
    (\<exists>J. (AugmentedChowRingIdeal_fy M :: error + ('e, 'a) augmented_chow_ring_ideal) = Inr J
          \<and> flats_of J = []) \<and>
    (\<exists>K. (AugmentedChowRingIdeal_atom_free M :: error + ('e, 'a) augmented_chow_ring_ideal) = Inr K
          \<and> flats_of K = [])"
proof -
  from assms have pf: "proper_flats M = []" by (simp add: proper_flats_def)
  from fy_low_rank_succeeds [OF pf] pf show ?thesis
    by (simp add: nonaug_low_rank atom_free_low_rank)
qed

theorem rank_0_construction_succeeds_witness:
  "full_rank loop \<le> 0 \<and> proper_flats loop = [] \<and>
    (\<exists>I. (ChowRingIdeal_nonaug loop :: error + (nat, int) chow_ring_ideal) = Inr I
          \<and> flats_generator I = []) \<and>
    (\<exists>J. (AugmentedChowRingIdeal_fy loop :: error + (nat, int) augmented_chow_ring_ideal) = Inr J
          \<and> flats_of J = []) \<and>
    (\<exists>K. (AugmentedChowRingIdeal_atom_free loop :: error + (nat, int) augmented_chow_ring_ideal)
            = Inr K \<and> flats_of K = [])"
proof -
  have h: "full_rank loop \<le> 0" by (simp add: loop_proper_flats)
  from rank_0_construction_succeeds [OF h, where ?'a = int] h show ?thesis by simp
qed

text \<open>
  The claim as stated fails: the matroid of one loop has rank 0, and the constructor of
  the non-augmented presentation returns an ideal.
\<close>

theorem rank_0_construction_counterexample:
  "full_rank loop = 0 \<and>
   (ChowRingIdeal_nonaug loop :: error + (nat, int) chow_ring_ideal)
     = Inr \<lparr>matroid_of = loop, flats_generator = [], ring = 0, gens = []\<rparr>"
proof -
  have "nonaug_L (groundset loop) (\<lambda>x. []) ([] :: int mpoly list) = []"
    by (simp add: loop_def nonaug_L_def enumerate_eq_zip)
  with nonaug_low_rank [of loop, where ?'a = int] loop_proper_flats show ?thesis by simp
qed

text \<open>
  Claim C7, as amended.  For a matroid of rank at most 1 (its groundset listed without
  repetition) there is no proper flat and the three constructors succeed.  Every generator
  of the non-augmented presentation is the zero polynomial, the atom-free presentation
  has no generator, and the generators of the Feitchner-Yuzvinsky presentation are the
  indeterminates of the groundset elements, one for each element.
\<close>

theorem rank_le_1_generators:
  assumes "full_rank M \<le> 1" and "distinct (groundset M)"
  shows "proper_flats M = [] \<and>
    (\<exists>I. (ChowRingIdeal_nonaug M :: error + ('e, 'a::comm_ring_1) chow_ring_ideal) = Inr I
          \<and> set (gens I) \<subseteq> {pzero}) \<and>
    (\<exists>K. (AugmentedChowRingIdeal_atom_free M :: error + ('e, 'a) augmented_chow_ring_ideal) = Inr K
          \<and> gens K = []) \<and>
    (\<exists>J. (AugmentedChowRingIdeal_fy M :: error + ('e, 'a) augmented_chow_ring_ideal) = Inr J
          \<and> gens J = map pvar [0..<length (groundset M)])"
proof -
  from assms(1) have pf: "proper_flats M = []" by (simp add: proper_flats_def)
  show ?thesis
    by (simp add: pf nonaug_low_rank [OF pf] atom_free_low_rank [OF pf]
        fy_low_rank [OF pf assms(2)] nonaug_L_trivial)
qed

theorem rank_le_1_generators_witness:
  "full_rank point \<le> 1 \<and> distinct (groundset point) \<and> proper_flats point = [] \<and>
    (\<exists>I. (ChowRingIdeal_nonaug point :: error + (nat, int) chow_ring_ideal) = Inr I
          \<and> set (gens I) \<subseteq> {pzero}) \<and>
    (\<exists>K. (AugmentedChowRingIdeal_atom_free point :: error + (nat, int) augmented_chow_ring_ideal)
            = Inr K \<and> gens K = []) \<and>
    (\<exists>J. (AugmentedChowRingIdeal_fy point :: error + (nat, int) augmented_chow_ring_ideal) = Inr J
          \<and> gens J = map pvar [0..<length (groundset point)])"
proof -
  have h1: "full_rank point \<le> 1" by (simp add: point_proper_flats)
  have h2: "distinct (groundset point)" by (simp add: point_def)
  from rank_le_1_generators [OF h1 h2, where ?'a = int] h1 h2 show ?thesis by simp
qed

text \<open>
  The claim as stated fails: for the matroid of rank 1 on one element the
  Feitchner-Yuzvinsky presentation has the generator \<open>pvar 0\<close>, which is not zero.
\<close>

theorem rank_le_1_fy_counterexample:
  "full_rank point = 1 \<and>
   (AugmentedChowRingIdeal_fy point :: error + (nat, int) augmented_chow_ring_ideal)
     = Inr \<lparr>matroid_of = point, flats_generator = [(Elem 0, pvar 0)], ring = 1,
            gens = [pvar 0], flats_of = []\<rparr> \<and>
   (pvar 0 :: int mpoly) \<noteq> pzero"
proof -
  have g: "groundset point = [0]" by (simp add: point_def)
  have d: "distinct (groundset point)" by (simp add: g)
  from fy_low_rank [OF _ d, where ?'a = int] point_proper_flats show ?thesis
    by (simp add: g pvar_def pzero_def)
qed

section \<open>The generators of the non-augmented presentation\<close>

lemma length_enumerate_filter:
  "length (concat (map (\<lambda>(j, G). if P G then [h j] else []) (enumerate k xs)))
     = length (filter P xs)"
  by (induction xs arbitrary: k) simp_all

lemma incomparable_pairs_Cons:
  assumes "F \<notin> set fs"
  shows "incomparable_pairs (F # fs)
    = (\<lambda>G. {F, G}) ` {G \<in> set fs. \<not> (F \<subset> G \<or> G \<subset> F)} \<union> incomparable_pairs fs"
proof (intro set_eqI iffI)
  fix X assume "X \<in> incomparable_pairs (F # fs)"
  then obtain A B where X: "X = {A, B}" and A: "A = F \<or> A \<in> set fs"
    and B: "B = F \<or> B \<in> set fs" and nc: "\<not> A \<subseteq> B" "\<not> B \<subseteq> A"
    by (auto simp add: incomparable_pairs_def)
  consider "A = F" "B \<in> set fs" | "B = F" "A \<in> set fs" | "A \<in> set fs" "B \<in> set fs"
    using A B nc by auto
  then show "X \<in> (\<lambda>G. {F, G}) ` {G \<in> set fs. \<not> (F \<subset> G \<or> G \<subset> F)} \<union> incomparable_pairs fs"
  proof cases
    case 1
    with nc have "B \<in> {G \<in> set fs. \<not> (F \<subset> G \<or> G \<subset> F)}" by auto
    with 1 X show ?thesis by blast
  next
    case 2
    with nc have "A \<in> {G \<in> set fs. \<not> (F \<subset> G \<or> G \<subset> F)}" by auto
    moreover from 2 X have "X = {F, A}" by auto
    ultimately show ?thesis by blast
  next
    case 3
    with nc X have "X \<in> incomparable_pairs fs"
      unfolding incomparable_pairs_def by simp blast
    then show ?thesis by simp
  qed
next
  fix X assume "X \<in> (\<lambda>G. {F, G}) ` {G \<in> set fs. \<not> (F \<subset> G \<or> G \<subset> F)} \<union> incomparable_pairs fs"
  then consider G where "X = {F, G}" "G \<in> set fs" "\<not> (F \<subset> G \<or> G \<subset> F)"
    | "X \<in> incomparable_pairs fs"
    by auto
  then show "X \<in> incomparable_pairs (F # fs)"
  proof cases
    case 1
    from 1(2) assms have "G \<noteq> F" by auto
    with 1(3) have "\<not> F \<subseteq> G" "\<not> G \<subseteq> F" by auto
    with 1(1,2) show ?thesis
      unfolding incomparable_pairs_def by simp blast
  next
    case 2
    then obtain A B where "X = {A, B}" "A \<in> set fs" "B \<in> set fs" "\<not> A \<subseteq> B" "\<not> B \<subseteq> A"
      unfolding incomparable_pairs_def by simp blast
    then show ?thesis
      unfolding incomparable_pairs_def by simp blast
  qed
qed

lemma finite_incomparable_pairs: "finite (incomparable_pairs fs)"
proof -
  have "incomparable_pairs fs \<subseteq> (\<lambda>(F, G). {F, G}) ` (set fs \<times> set fs)"
    by (auto simp add: incomparable_pairs_def)
  then show ?thesis by (rule finite_subset) simp
qed

lemma incomparable_pairs_subset: "X \<in> incomparable_pairs fs \<Longrightarrow> X \<subseteq> set fs"
  unfolding incomparable_pairs_def by blast

lemma card_incomparable_pairs_Cons:
  assumes "F \<notin> set fs" and "distinct fs"
  shows "card (incomparable_pairs (F # fs))
    = length (filter (\<lambda>G. \<not> (F \<subset> G \<or> G \<subset> F)) fs) + card (incomparable_pairs fs)"
proof -
  let ?P = "\<lambda>G. \<not> (F \<subset> G \<or> G \<subset> F)"
  let ?A = "{G \<in> set fs. ?P G}"
  have inj: "inj_on (\<lambda>G. {F, G}) ?A"
  proof (rule inj_onI)
    fix G H assume "{F, G} = {F, H}"
    then show "G = H" by (simp add: doubleton_eq_iff) blast
  qed
  have disj: "(\<lambda>G. {F, G}) ` ?A \<inter> incomparable_pairs fs = {}"
  proof (rule ccontr)
    assume "(\<lambda>G. {F, G}) ` ?A \<inter> incomparable_pairs fs \<noteq> {}"
    then obtain G where "{F, G} \<in> incomparable_pairs fs" by blast
    from incomparable_pairs_subset [OF this] assms(1) show False by simp
  qed
  have A: "?A = {x. ?P x} \<inter> set fs" by blast
  have "card ((\<lambda>G. {F, G}) ` ?A) = card ?A"
    by (rule card_image [OF inj])
  also have "\<dots> = length (filter ?P fs)"
    unfolding A by (rule distinct_length_filter [OF assms(2), symmetric])
  finally have first: "card ((\<lambda>G. {F, G}) ` ?A) = length (filter ?P fs)" .
  have fin: "finite ((\<lambda>G. {F, G}) ` ?A)" by simp
  show ?thesis
    unfolding incomparable_pairs_Cons [OF assms(1)]
      card_Un_disjoint [OF fin finite_incomparable_pairs disj] first ..
qed

lemma length_quadratic:
  assumes "distinct fs"
  shows "length (concat (map (\<lambda>(i, A).
            concat (map (\<lambda>(j, B). if \<not> (A \<subset> B \<or> B \<subset> A) then [h i j] else [])
                     (enumerate 0 (drop (i + 1) (pre @ fs)))))
          (enumerate (length pre) fs)))
    = card (incomparable_pairs fs)"
  using assms
proof (induction fs arbitrary: pre)
  case Nil
  show ?case by (simp add: incomparable_pairs_def)
next
  case (Cons F fs)
  from Cons.prems have F: "F \<notin> set fs" and d: "distinct fs" by simp_all
  have pre: "(pre @ [F]) @ fs = pre @ F # fs" "length (pre @ [F]) = Suc (length pre)"
    by simp_all
  have rest: "length (concat (map (\<lambda>(i, A).
            concat (map (\<lambda>(j, B). if \<not> (A \<subset> B \<or> B \<subset> A) then [h i j] else [])
                     (enumerate 0 (drop (i + 1) (pre @ F # fs)))))
          (enumerate (Suc (length pre)) fs)))
    = card (incomparable_pairs fs)"
    using Cons.IH [OF d, of "pre @ [F]"] unfolding pre .
  have head: "enumerate (length pre) (F # fs) = (length pre, F) # enumerate (Suc (length pre)) fs"
    by simp
  have dr: "drop (length pre + 1) (pre @ F # fs) = fs"
    by simp
  show ?case
    unfolding head
    by (simp only: list.map concat.simps length_append prod.case dr length_enumerate_filter
        rest card_incomparable_pairs_Cons [OF F d])
qed

lemma length_nonaug_Q:
  "distinct fs \<Longrightarrow> length (nonaug_Q fs gs) = card (incomparable_pairs fs)"
  using length_quadratic [of fs "\<lambda>i j. pmul (gs ! i) (gs ! (i + j + 1))" "[]"]
  by (simp add: nonaug_Q_def)

lemma sum_list_Suc:
  "\<forall>j \<in> set xs. f j = Suc (g j) \<Longrightarrow> sum_list (map f xs) = sum_list (map g xs) + length xs"
  by (induction xs) simp_all

lemma sum_descending: "sum_list (map (\<lambda>j. n - Suc j) [0..<n]) = n choose 2"
proof (induction n)
  case 0
  show ?case by simp
next
  case (Suc n)
  have "sum_list (map (\<lambda>j. n - j) [0..<n]) = sum_list (map (\<lambda>j. n - Suc j) [0..<n]) + length [0..<n]"
    by (rule sum_list_Suc) auto
  then show ?case
    by (simp add: Suc.IH numeral_2_eq_2)
qed

lemma length_nonaug_L: "length (nonaug_L E fc gs) = length E choose 2"
proof -
  have "length (nonaug_L E fc gs)
      = sum_list (map (\<lambda>p. length E - Suc (fst p)) (enumerate 0 E))"
    by (simp add: nonaug_L_def length_concat comp_def case_prod_unfold)
  also have "map (\<lambda>p. length E - Suc (fst p)) (enumerate 0 E)
      = map (\<lambda>j. length E - Suc j) (map fst (enumerate 0 E))"
    by (simp only: map_map comp_def)
  also have "map fst (enumerate 0 E) = [0..<length E]"
    by (simp add: enumerate_eq_zip)
  finally show ?thesis by (simp add: sum_descending)
qed

lemma list_by_index:
  assumes "\<And>i. i < length xs \<Longrightarrow> f (xs ! i) = f' i"
  shows "map f xs = map f' [0..<length xs]"
  by (rule nth_equalityI) (simp_all add: assms)

lemma pairs_by_index:
  assumes "\<And>i j. i < length xs \<Longrightarrow> j < length xs \<Longrightarrow> g (xs ! i) (xs ! j) = g' i j"
  shows "concat (map (\<lambda>A. concat (map (g A) xs)) xs)
    = concat (map (\<lambda>i. concat (map (g' i) [0..<length xs])) [0..<length xs])"
proof -
  have "map (\<lambda>A. concat (map (g A) xs)) xs
      = map (\<lambda>i. concat (map (g' i) [0..<length xs])) [0..<length xs]"
  proof (rule list_by_index [where f = "\<lambda>A. concat (map (g A) xs)"
        and f' = "\<lambda>i. concat (map (g' i) [0..<length xs])"])
    fix i assume i: "i < length xs"
    have "map (g (xs ! i)) xs = map (g' i) [0..<length xs]"
      by (rule list_by_index) (simp add: assms i)
    then show "concat (map (g (xs ! i)) xs) = concat (map (g' i) [0..<length xs])"
      by simp
  qed
  then show ?thesis by simp
qed

lemma nonaug_generator_distinct:
  fixes fs :: "'e set list"
  assumes "distinct fs"
  shows "dict_of (zip (map Flat fs) (ring_gens (length fs) :: 'a::comm_ring_1 mpoly list))
           = zip (map Flat fs) (ring_gens (length fs))"
    and "flat_keys (dict_keys (zip (map Flat fs) (ring_gens (length fs) :: 'a mpoly list))) = fs"
proof -
  have m: "map fst (zip (map Flat fs) (ring_gens (length fs) :: 'a mpoly list)) = map Flat fs"
    by (simp add: ring_gens_def)
  have "distinct (map Flat fs)"
    using assms by (simp add: distinct_map inj_on_def)
  with m have "distinct (map fst (zip (map Flat fs) (ring_gens (length fs) :: 'a mpoly list)))"
    by simp
  then show "dict_of (zip (map Flat fs) (ring_gens (length fs) :: 'a mpoly list))
      = zip (map Flat fs) (ring_gens (length fs))"
    by (rule dict_of_distinct)
  show "flat_keys (dict_keys (zip (map Flat fs) (ring_gens (length fs) :: 'a mpoly list))) = fs"
    by (simp only: dict_keys_def m flat_keys_Flat)
qed

lemma nonaug_built:
  assumes "distinct (proper_flats M)"
  shows "ChowRingIdeal_nonaug M =
    (case flats_containing_index (groundset M) (proper_flats M) of
       Inl e \<Rightarrow> Inl e
     | Inr fc \<Rightarrow>
         Inr \<lparr>matroid_of = M,
              flats_generator = zip (map Flat (proper_flats M)) (ring_gens (length (proper_flats M))),
              ring = length (proper_flats M),
              gens = nonaug_Q (proper_flats M) (ring_gens (length (proper_flats M)))
                     @ nonaug_L (groundset M) fc (ring_gens (length (proper_flats M)))\<rparr>)"
  unfolding ChowRingIdeal_nonaug_def Let_def nonaug_gens_constructor_def
    nonaug_generator_distinct [OF assms]
  by (simp split: sum.split)

text \<open>
  Claim C6.  When the constructor of the non-augmented presentation succeeds on a
  matroid whose groundset and proper flats are listed without repetition, the generator
  sequence is the quadratic part followed by the linear part; the quadratic part has as
  many members as there are unordered pairs of incomparable proper flats, and the linear
  part has \<open>C(|E|, 2)\<close> members, one for each pair of positions in the groundset, equal
  forms included.
\<close>

theorem nonaug_generator_counts:
  assumes "ChowRingIdeal_nonaug M = Inr I"
    and "distinct (groundset M)" and "distinct (proper_flats M)"
  shows "\<exists>fc Q L. gens I = Q @ L \<and>
      Q = nonaug_Q (proper_flats M) (ring_gens (ring I)) \<and>
      L = nonaug_L (groundset M) fc (ring_gens (ring I)) \<and>
      length Q = card (incomparable_pairs (proper_flats M)) \<and>
      length L = card (set (groundset M)) choose 2"
proof (cases "flats_containing_index (groundset M) (proper_flats M)")
  case (Inl e)
  with assms(1) show ?thesis
    by (simp add: nonaug_built [OF assms(3)])
next
  case (Inr fc)
  with assms(1) have I: "gens I = nonaug_Q (proper_flats M) (ring_gens (ring I))
       @ nonaug_L (groundset M) fc (ring_gens (ring I))"
    by (auto simp add: nonaug_built [OF assms(3)])
  have "length (nonaug_L (groundset M) fc (ring_gens (ring I) :: 'b mpoly list))
      = card (set (groundset M)) choose 2"
    by (simp add: length_nonaug_L distinct_card [OF assms(2)])
  with I length_nonaug_Q [OF assms(3)] show ?thesis by blast
qed

theorem nonaug_generator_counts_witness:
  "ChowRingIdeal_nonaug cycle3 = Inr (cycle3_nonaug :: (nat, int) chow_ring_ideal) \<and>
   distinct (groundset cycle3) \<and> distinct (proper_flats cycle3) \<and>
   (\<exists>fc Q L. gens (cycle3_nonaug :: (nat, int) chow_ring_ideal) = Q @ L \<and>
      Q = nonaug_Q (proper_flats cycle3) (ring_gens (ring (cycle3_nonaug :: (nat, int) chow_ring_ideal))) \<and>
      L = nonaug_L (groundset cycle3) fc (ring_gens (ring (cycle3_nonaug :: (nat, int) chow_ring_ideal))) \<and>
      length Q = card (incomparable_pairs (proper_flats cycle3)) \<and>
      length L = card (set (groundset cycle3)) choose 2)"
proof -
  have h1: "ChowRingIdeal_nonaug cycle3 = Inr (cycle3_nonaug :: (nat, int) chow_ring_ideal)"
    by (rule cycle3_nonaug_built)
  have h2: "distinct (groundset cycle3)"
    by (simp add: cycle3_groundset)
  have h3: "distinct (proper_flats cycle3)"
    by (simp add: cycle3_proper_flats)
  from nonaug_generator_counts [OF h1 h2 h3] h1 h2 h3 show ?thesis
    by simp
qed

section \<open>The generators of the Feitchner-Yuzvinsky presentation\<close>

lemma fy_built:
  fixes M :: "'e matroid"
  assumes "distinct (groundset M)" and "distinct (proper_flats M)"
  shows "(AugmentedChowRingIdeal_fy M :: error + ('e, 'a::comm_ring_1) augmented_chow_ring_ideal) =
    (if flat_outside_groundset M then Inl KeyError
     else Inr \<lparr>matroid_of = M,
       flats_generator = zip (map Elem (groundset M) @ map Flat (proper_flats M))
                           (map pvar [0..<length (groundset M) + length (proper_flats M)]),
       ring = length (groundset M) + length (proper_flats M),
       gens = fy_Q (zip (map Elem (groundset M) @ map Flat (proper_flats M))
                      (map pvar [0..<length (groundset M) + length (proper_flats M)]))
                (proper_flats M)
              @ fy_L (zip (map Elem (groundset M) @ map Flat (proper_flats M))
                      (map pvar [0..<length (groundset M) + length (proper_flats M)]))
                  (groundset M) (proper_flats M) (\<lambda>x. [F. F \<leftarrow> proper_flats M, x \<in> F]),
       flats_of = proper_flats M\<rparr>)"
  unfolding AugmentedChowRingIdeal_fy_def Let_def fy_generator_distinct [OF assms]
    fy_gens_constructor_def flats_containing_def flat_outside_groundset_def
  by simp

lemma fy_Q_by_index:
  assumes "distinct E" and "distinct fs"
  shows "fy_Q (zip (map Elem E @ map Flat fs) (map pvar [0..<length E + length fs])) fs
    = [pmul (pvar (length E + i)) (pvar (length E + j)).
         i \<leftarrow> [0..<length fs], j \<leftarrow> [0..<length fs], \<not> (fs ! i \<subset> fs ! j \<or> fs ! j \<subset> fs ! i)]"
  unfolding fy_Q_def
  by (rule pairs_by_index) (simp add: fy_generator_flat [OF assms])

lemma fy_L_by_index:
  assumes "distinct E" and "distinct fs"
  shows "fy_L (zip (map Elem E @ map Flat fs) (map pvar [0..<length E + length fs])) E fs
            (\<lambda>x. [F. F \<leftarrow> fs, x \<in> F])
    = [psub (pvar i) (psum [pvar (length E + j). j \<leftarrow> [0..<length fs], E ! i \<notin> fs ! j]).
         i \<leftarrow> [0..<length E]]"
  unfolding fy_L_def
proof (rule list_by_index)
  fix i assume i: "i < length E"
  let ?fg = "zip (map Elem E @ map Flat fs) (map pvar [0..<length E + length fs]) :: ('a key, 'b mpoly) dict"
  have "map (\<lambda>F. if F \<notin> set [F. F \<leftarrow> fs, E ! i \<in> F] then [dict_get ?fg (Flat F)] else []) fs
      = map (\<lambda>j. if E ! i \<notin> fs ! j then [pvar (length E + j)] else []) [0..<length fs]"
    by (rule list_by_index) (simp add: fy_generator_flat [OF assms])
  then show "psub (dict_get ?fg (Elem (E ! i)))
        (psum (concat (map (\<lambda>F. if F \<notin> set [F. F \<leftarrow> fs, E ! i \<in> F]
                                 then [dict_get ?fg (Flat F)] else []) fs)))
      = psub (pvar i)
          (psum (concat (map (\<lambda>j. if E ! i \<notin> fs ! j then [pvar (length E + j)] else [])
                           [0..<length fs])))"
    by (simp only: fy_generator_elem [OF assms i])
qed

text \<open>
  What the constructor of the Feitchner-Yuzvinsky presentation builds on a matroid whose
  groundset and proper flats are listed without repetition: the \<open>i\<close>-th element has the
  indeterminate \<open>pvar i\<close>, the \<open>j\<close>-th proper flat the indeterminate \<open>pvar (|E| + j)\<close>.
  The loop over \<^verbatim>\<open>F\<close> and \<^verbatim>\<open>G\<close> visits every ordered pair of proper flats, a flat
  paired with itself too, and appends a product whenever neither flat is a proper subset
  of the other; then every element contributes its indeterminate minus the sum of the
  indeterminates of the proper flats that do not contain it.
\<close>

lemma fy_generators:
  assumes "AugmentedChowRingIdeal_fy M = Inr I"
    and "distinct (groundset M)" and "distinct (proper_flats M)"
  shows "gens I =
     [pmul (pvar (length (groundset M) + i)) (pvar (length (groundset M) + j)).
        i \<leftarrow> [0..<length (proper_flats M)], j \<leftarrow> [0..<length (proper_flats M)],
        \<not> (proper_flats M ! i \<subset> proper_flats M ! j \<or> proper_flats M ! j \<subset> proper_flats M ! i)] @
     [psub (pvar i)
           (psum [pvar (length (groundset M) + j).
                    j \<leftarrow> [0..<length (proper_flats M)], groundset M ! i \<notin> proper_flats M ! j]).
        i \<leftarrow> [0..<length (groundset M)]]"
proof (cases "flat_outside_groundset M")
  case True
  with assms(1) show ?thesis
    by (simp add: fy_built [OF assms(2,3)])
next
  case False
  with assms(1) have "gens I =
      fy_Q (zip (map Elem (groundset M) @ map Flat (proper_flats M))
              (map pvar [0..<length (groundset M) + length (proper_flats M)]))
        (proper_flats M)
      @ fy_L (zip (map Elem (groundset M) @ map Flat (proper_flats M))
              (map pvar [0..<length (groundset M) + length (proper_flats M)]))
          (groundset M) (proper_flats M) (\<lambda>x. [F. F \<leftarrow> proper_flats M, x \<in> F])"
    by (auto simp add: fy_built [OF assms(2,3)])
  then show ?thesis
    by (simp only: fy_Q_by_index [OF assms(2,3)] fy_L_by_index [OF assms(2,3)])
qed

text \<open>
  The ideal that the docstring of the class describes for the 3-cycle is spanned by the
  products of the three pairs of incomparable flats and the three linear forms.  At the
  point where the indeterminates of the elements 1 and 2 and of the flat \<open>{0}\<close> are 1
  and the others are 0, these six polynomials vanish and the square of the indeterminate
  of \<open>{0}\<close> does not.
\<close>

lemma square_not_in_documented_ideal:
  "pmul (pvar 3) (pvar 3) \<notin> ideal_of
     [pmul (pvar 3) (pvar 4), pmul (pvar 3) (pvar 5), pmul (pvar 4) (pvar 5),
      psub (pvar 0) (padd (pvar 4) (pvar 5)),
      psub (pvar 1) (padd (pvar 3) (pvar 5)),
      psub (pvar 2) (padd (pvar 3) (pvar 4)) :: int mpoly]"
    (is "?p \<notin> ideal_of ?D")
proof
  let ?\<rho> = "\<lambda>i::nat. if i = 1 \<or> i = 2 \<or> i = 3 then 1 else (0::int)"
  assume "?p \<in> ideal_of ?D"
  moreover have "\<forall>g \<in> set ?D. (2::int) dvd peval ?\<rho> g"
    by (simp add: peval_pmul psub_def peval_padd)
       (simp add: pvar_def pneg_def peval_def meval_def)
  ultimately have "(2::int) dvd peval ?\<rho> ?p"
    by (rule ideal_of_dvd)
  then show False
    by (simp add: peval_pmul) (simp add: pvar_def peval_def meval_def)
qed

text \<open>
  Claim C5.  The claim asks for exactly one product for each unordered pair of
  incomparable proper flats.  For the 3-cycle over the integers the constructor builds
  \<open>cycle3_fy\<close>, and its generators hold the square of the indeterminate of the flat
  \<open>{0}\<close>, which no pair of incomparable flats gives, and hold the product for the
  incomparable flats \<open>{0}\<close> and \<open>{1}\<close> twice.  The square is not in the ideal of the
  generators that the claim and the docstring of the class describe.
\<close>

theorem fy_quadratic_squares:
  "AugmentedChowRingIdeal_fy cycle3 = Inr (cycle3_fy :: (nat, int) augmented_chow_ring_ideal) \<and>
   pmul (pvar 3) (pvar 3) \<in> set (gens (cycle3_fy :: (nat, int) augmented_chow_ring_ideal)) \<and>
   count_list (gens (cycle3_fy :: (nat, int) augmented_chow_ring_ideal))
     (pmul (pvar 3) (pvar 4)) = 2 \<and>
   pmul (pvar 3) (pvar 3) \<notin> ideal_of
     [pmul (pvar 3) (pvar 4), pmul (pvar 3) (pvar 5), pmul (pvar 4) (pvar 5),
      psub (pvar 0) (padd (pvar 4) (pvar 5)),
      psub (pvar 1) (padd (pvar 3) (pvar 5)),
      psub (pvar 2) (padd (pvar 3) (pvar 4)) :: int mpoly]"
proof -
  have "pmul (pvar 3) (pvar 3) \<in> set (gens (cycle3_fy :: (nat, int) augmented_chow_ring_ideal))"
    by (simp add: cycle3_fy_def)
  moreover have "count_list (gens (cycle3_fy :: (nat, int) augmented_chow_ring_ideal))
      (pmul (pvar 3) (pvar 4)) = 2"
    by (simp add: cycle3_fy_def pvar_def psub_def pneg_def)
  ultimately show ?thesis
    using cycle3_fy_built [where ?'a = int] square_not_in_documented_ideal by blast
qed

end
